theory Spec2Isabelle
  imports Main
begin

text \<open>
  The command exchange of pjlink-control (\<^verbatim>\<open>src/index.ts\<close>): the private method
  \<^verbatim>\<open>_sendCmd\<close> of the class \<^verbatim>\<open>Projector\<close>, its helper \<^verbatim>\<open>_killSocket\<close> and the
  caller \<^verbatim>\<open>setInputByDirectNumber\<close>.

  The code is driven by events. Each callback is a function on the record of what an
  Attempt has done so far. The network is given as a script, per value of the retry
  counter, of the events the socket emits while its listeners are attached and of whether
  it closes in time; Attempts of one call that have the same counter (there are several
  only when an Attempt receives more than one response) meet the same script. A call
  yields how its promise settles together with the Attempts it made.
\<close>

section \<open>Strings, buffers and numbers as the code uses them\<close>

text \<open>
  The wire format is ASCII, so a \<^verbatim>\<open>Buffer\<close> and the string that
  \<^verbatim>\<open>toString()\<close> makes of it are the same list of bytes here. Numbers are the
  integers the callers pass; \<^verbatim>\<open>toString()\<close> renders them in decimal.
\<close>

definition CR :: char where
  "CR = CHR 0x0D"

definition DQUOTE :: char where
  "DQUOTE = CHR 0x22"

text \<open>\<^verbatim>\<open>Buffer.slice(start, end)\<close>: a negative index counts from the end, every index
  is clamped to the buffer, and an end before the start gives the empty buffer.\<close>

definition clamp_index :: "nat \<Rightarrow> int \<Rightarrow> nat" where
  "clamp_index len i = (if i < 0 then nat (max (int len + i) 0) else min (nat i) len)"

definition slice :: "string \<Rightarrow> int \<Rightarrow> int \<Rightarrow> string" where
  "slice buf s e =
     (let a = clamp_index (length buf) s; b = clamp_index (length buf) e
      in take (b - a) (drop a buf))"

definition slice_from :: "string \<Rightarrow> int \<Rightarrow> string" where
  "slice_from buf s = drop (clamp_index (length buf) s) buf"

text \<open>\<^verbatim>\<open>String.prototype.toUpperCase\<close> on ASCII text.\<close>

definition upper_char :: "char \<Rightarrow> char" where
  "upper_char c =
     (case map_of (zip ''abcdefghijklmnopqrstuvwxyz'' ''ABCDEFGHIJKLMNOPQRSTUVWXYZ'') c of
        None \<Rightarrow> c
      | Some u \<Rightarrow> u)"

definition toUpperCase :: "string \<Rightarrow> string" where
  "toUpperCase s = map upper_char s"

text \<open>\<^verbatim>\<open>Number.prototype.toString\<close> on an integer.\<close>

definition digit_char :: "nat \<Rightarrow> char" where
  "digit_char d = ''0123456789'' ! (d mod 10)"

function nat_toString :: "nat \<Rightarrow> string" where
  "nat_toString n =
     (if n < 10 then [digit_char n] else nat_toString (n div 10) @ [digit_char (n mod 10)])"
  by pat_completeness auto
termination
  by (relation "measure (\<lambda>n. n)") auto

declare nat_toString.simps [simp del]

definition int_toString :: "int \<Rightarrow> string" where
  "int_toString i = (if i < 0 then CHR ''-'' # nat_toString (nat (- i)) else nat_toString (nat i))"

section \<open>The projector and its commands\<close>

definition defaultPort :: nat where
  "defaultPort = 4352"

definition maxRetries :: nat where
  "maxRetries = 5"

record projector =
  url :: string
  port :: nat
  password :: string

text \<open>The constructor's assignments (the identity probe it then starts is a chain of
  five queries through \<open>sendCmd\<close>).\<close>

definition new_projector :: "string \<Rightarrow> string \<Rightarrow> nat option \<Rightarrow> projector" where
  "new_projector u pw prt =
     \<lparr>url = u, port = (case prt of None \<Rightarrow> defaultPort | Some n \<Rightarrow> n), password = pw\<rparr>"

definition protocolVersion2Commands :: "string list" where
  "protocolVersion2Commands = [''SVOL'', ''IRES'', ''FREZ'']"

definition PROTOCOL_VERSION :: "string \<Rightarrow> string" where
  "PROTOCOL_VERSION cmd =
     (if toUpperCase cmd \<in> set protocolVersion2Commands then ''%2'' else ''%1'')"

text \<open>The argument of a command: \<^verbatim>\<open>number | '?'\<close>.\<close>

datatype arg = Query | Num int

definition argString :: "arg \<Rightarrow> string" where
  "argString a = (case a of Query \<Rightarrow> ''?'' | Num n \<Rightarrow> int_toString n)"

definition query :: "arg \<Rightarrow> bool" where
  "query a = (case a of Query \<Rightarrow> True | Num n \<Rightarrow> False)"

section \<open>One Attempt\<close>

text \<open>
  What an Attempt did: the arguments it was started with, the flag \<^verbatim>\<open>ending\<close>, and
  every call it made on its socket, the console and the timers.
\<close>

record attempt =
  counter :: nat
  carried :: "string option"
  ending :: bool
  connects :: "(nat \<times> string) list"
  written :: "string list"
  logged :: "string list"
  timers :: "nat list"
  end_calls :: nat
  destroy_calls :: nat

text \<open>What the callbacks hanging on a promise do in the end: \<^verbatim>\<open>res(v)\<close>,
  \<^verbatim>\<open>rej(e)\<close>, or a recursive \<^verbatim>\<open>_sendCmd(cmd, arg, retry + 1, e)\<close> whose result is
  passed on to \<^verbatim>\<open>res\<close> and \<^verbatim>\<open>rej\<close>.\<close>

datatype action = Res "string option" | Rej "string option" | Retry string

text \<open>What the network does during one Attempt: the events the socket emits while its
  listeners are attached, in order (\<open>incoming\<close> before the 2000 ms timer is due,
  \<open>late\<close> after it), and whether the socket's close event arrives, after all of them,
  before the first 200 ms timer of \<^verbatim>\<open>_killSocket\<close> fires. A socket whose close event
  comes later, never, or before any \<^verbatim>\<open>_killSocket\<close> has \<open>closes = False\<close>.\<close>

datatype event = Data string | SockError string

record script =
  incoming :: "event list"
  late :: "event list"
  closes :: bool

text \<open>\<^verbatim>\<open>new net.Socket()\<close>, \<^verbatim>\<open>socket.connect(port, url)\<close> and
  \<^verbatim>\<open>setTimeout(..., 2000)\<close>.\<close>

definition new_attempt :: "projector \<Rightarrow> nat \<Rightarrow> string option \<Rightarrow> attempt" where
  "new_attempt p r err =
     \<lparr>counter = r, carried = err, ending = False, connects = [(port p, url p)],
      written = [], logged = [], timers = [2000], end_calls = 0, destroy_calls = 0\<rparr>"

text \<open>\<^verbatim>\<open>_killSocket\<close>: \<^verbatim>\<open>socket.end()\<close>, a 200 ms timer, and either the close event
  before the timer (the promise resolves) or, at the timer, \<^verbatim>\<open>socket.destroy()\<close> and a
  rejection. The first of these timers to fire removes every listener of the socket, the
  close listeners of later calls among them, so that either every call of one Attempt
  resolves (at the close event) or every call rejects (each at its own timer).\<close>

definition killSocket :: "bool \<Rightarrow> attempt \<Rightarrow> (string + unit) \<times> attempt" where
  "killSocket closed_in_time st =
     (let st1 = st\<lparr>timers := timers st @ [200], end_calls := end_calls st + 1\<rparr>
      in if closed_in_time then (Inr (), st1)
         else (Inl ''Projector failed to close socket'',
               st1\<lparr>destroy_calls := destroy_calls st1 + 1\<rparr>))"

text \<open>The callback of \<^verbatim>\<open>_killSocket(socket).then\<close> in the data handler.\<close>

definition data_then :: "string \<Rightarrow> arg \<Rightarrow> string \<Rightarrow> action" where
  "data_then cmd a buf =
     (if slice buf 0 7 = PROTOCOL_VERSION cmd @ cmd @ ''='' then
        (if \<not> query a then
           (if slice buf 7 9 = ''OK'' then Res None
            else Retry (''Projector returned error: '' @ slice_from buf 7))
         else Res (Some (slice_from buf 7)))
      else Retry ''Unexpected answer from projector'')"

text \<open>The handler of the socket's data event. The digest function
  (\<^verbatim>\<open>crypto.createHash('md5') ... digest('hex')\<close>) is the parameter \<open>digest\<close>.\<close>

definition on_data ::
  "(string \<Rightarrow> string) \<Rightarrow> projector \<Rightarrow> string \<Rightarrow> arg \<Rightarrow> bool \<Rightarrow> attempt \<Rightarrow> string
     \<Rightarrow> attempt \<times> action option" where
  "on_data digest p cmd a closed_in_time st buf =
     (if slice buf 0 9 = ''PJLINK 1 '' then
        (st\<lparr>written := written st @
              [digest (slice buf 9 (- 1) @ password p) @ PROTOCOL_VERSION cmd @ cmd @ '' '' @
               argString a @ [CR]]\<rparr>, None)
      else if slice buf 0 8 = ''PJLINK 0'' then
        (st\<lparr>written := written st @ [PROTOCOL_VERSION cmd @ cmd @ '' '' @ argString a @ [CR]]\<rparr>,
         None)
      else
        (case killSocket closed_in_time (st\<lparr>ending := True\<rparr>) of
           (Inr u, st') \<Rightarrow> (st', Some (data_then cmd a buf))
         | (Inl e, st') \<Rightarrow> (st', Some (Rej (Some e)))))"

text \<open>The handler of the socket's error event; the event carries
  \<^verbatim>\<open>JSON.stringify(err)\<close>.\<close>

definition on_error :: "attempt \<Rightarrow> string \<Rightarrow> attempt" where
  "on_error st e = st\<lparr>logged := logged st @ [''Projector socket error: '' @ e]\<rparr>"

text \<open>The callback of the 2000 ms timer.\<close>

definition on_timer :: "string \<Rightarrow> arg \<Rightarrow> bool \<Rightarrow> attempt \<Rightarrow> attempt \<times> action option" where
  "on_timer cmd a closed_in_time st =
     (if \<not> ending st then
        (case killSocket closed_in_time st of
           (Inr u, st') \<Rightarrow> (st', Some (Retry ''Failed command to projector''))
         | (Inl e, st') \<Rightarrow>
             (st', Some (Retry (''Failed command to projector, failed to close socket, command: %1'' @
                                cmd @ '' '' @ argString a))))
      else (st, None))"

text \<open>The dispatch of one socket event to its listener.\<close>

fun deliver ::
  "(string \<Rightarrow> string) \<Rightarrow> projector \<Rightarrow> string \<Rightarrow> arg \<Rightarrow> bool \<Rightarrow> attempt \<Rightarrow> event
     \<Rightarrow> attempt \<times> action option" where
  "deliver digest p cmd a c st (Data buf) = on_data digest p cmd a c st buf"
| "deliver digest p cmd a c st (SockError e) = (on_error st e, None)"

text \<open>The listeners stay attached after a close has started: every event of the list
  is delivered, and every chunk that is not a greeting calls \<^verbatim>\<open>_killSocket\<close> again. The
  result lists, in the order in which they run, what the callbacks hanging on these calls
  do.\<close>

fun awaiting ::
  "(string \<Rightarrow> string) \<Rightarrow> projector \<Rightarrow> string \<Rightarrow> arg \<Rightarrow> bool \<Rightarrow> attempt \<Rightarrow> event list
     \<Rightarrow> attempt \<times> action list" where
  "awaiting digest p cmd a c st [] = (st, [])"
| "awaiting digest p cmd a c st (ev # evs) =
     (case deliver digest p cmd a c st ev of
        (st', None) \<Rightarrow> awaiting digest p cmd a c st' evs
      | (st', Some act) \<Rightarrow>
          (case awaiting digest p cmd a c st' evs of (st'', acts) \<Rightarrow> (st'', act # acts)))"

text \<open>One Attempt: the events before the 2000 ms timer, the timer, the events after it.\<close>

definition run_attempt ::
  "(string \<Rightarrow> string) \<Rightarrow> projector \<Rightarrow> string \<Rightarrow> arg \<Rightarrow> nat \<Rightarrow> string option \<Rightarrow> script
     \<Rightarrow> attempt \<times> action list" where
  "run_attempt digest p cmd a r err sc =
     (case awaiting digest p cmd a (closes sc) (new_attempt p r err) (incoming sc) of
        (st1, acts1) \<Rightarrow>
          (case on_timer cmd a (closes sc) st1 of
             (st2, t) \<Rightarrow>
               (case awaiting digest p cmd a (closes sc) st2 (late sc) of
                  (st3, acts3) \<Rightarrow>
                    (st3, acts1 @ (case t of None \<Rightarrow> [] | Some act \<Rightarrow> [act]) @ acts3))))"

section \<open>The logical command\<close>

text \<open>How a promise settles. When several recursive calls of one Attempt are under way at
  the same time, the promise settles as the first of them does; which one that is depends
  on the timing of their sockets, which the scripts do not give, and \<open>FirstOf\<close> lists
  the candidates.\<close>

datatype outcome =
  Fulfilled "string option" | Rejected "string option" | Pending | FirstOf "outcome list"

definition first_of :: "outcome list \<Rightarrow> outcome" where
  "first_of outs =
     (case remdups outs of
        [] \<Rightarrow> Pending
      | out # rest \<Rightarrow> (case rest of [] \<Rightarrow> out | x # xs \<Rightarrow> FirstOf (out # rest)))"

text \<open>The first \<^verbatim>\<open>res\<close> or \<^verbatim>\<open>rej\<close> among the callbacks, and the errors of their
  recursive calls.\<close>

fun first_direct :: "action list \<Rightarrow> outcome option" where
  "first_direct [] = None"
| "first_direct (Res v # acts) = Some (Fulfilled v)"
| "first_direct (Rej e # acts) = Some (Rejected e)"
| "first_direct (Retry e # acts) = first_direct acts"

fun retries :: "action list \<Rightarrow> string list" where
  "retries [] = []"
| "retries (Res v # acts) = retries acts"
| "retries (Rej e # acts) = retries acts"
| "retries (Retry e # acts) = e # retries acts"

text \<open>The recursive calls made before the first \<^verbatim>\<open>res\<close> or \<^verbatim>\<open>rej\<close>, and that
  one.\<close>

fun ahead :: "action list \<Rightarrow> outcome list \<Rightarrow> outcome list" where
  "ahead [] kids = []"
| "ahead (Res v # acts) kids = [Fulfilled v]"
| "ahead (Rej e # acts) kids = [Rejected e]"
| "ahead (Retry e # acts) [] = ahead acts []"
| "ahead (Retry e # acts) (k # kids) = k # ahead acts kids"

text \<open>
  The promise of one call, from what the callbacks of its Attempt do and how the promises
  of its recursive calls settle.

  When the socket closes in time, all callbacks run one after the other in the microtasks
  of the one close event. A \<^verbatim>\<open>res\<close> or \<^verbatim>\<open>rej\<close> among them settles the promise
  before any recursive call can pass its result on (that takes two more microtasks even
  for a call that rejects at once). Without one, recursive calls that reject at once
  (the counter is exhausted) pass their errors on in the order of the calls, so the first
  one settles the promise; otherwise the recursive calls race.

  When the socket does not close in time, each callback runs at its own timer, and a
  recursive call made by an earlier callback races with the \<^verbatim>\<open>rej\<close> of a later one.
\<close>

definition settle :: "bool \<Rightarrow> bool \<Rightarrow> action list \<Rightarrow> outcome list \<Rightarrow> outcome" where
  "settle one_event exhausted acts kids =
     (if one_event then
        (case first_direct acts of
           Some out \<Rightarrow> out
         | None \<Rightarrow>
             (if exhausted then (case kids of [] \<Rightarrow> Pending | k # ks \<Rightarrow> k)
              else first_of kids))
      else first_of (ahead acts kids))"

text \<open>\<^verbatim>\<open>if (!retry) retry = 0\<close>: a missing counter and the counter 0 are both 0.\<close>

definition counter_of :: "nat option \<Rightarrow> nat" where
  "counter_of retry = (case retry of None \<Rightarrow> 0 | Some n \<Rightarrow> n)"

text \<open>\<^verbatim>\<open>_sendCmd(cmd, arg, retry?, err?)\<close>. The network is a script for each value of
  the retry counter. The result is how the returned promise settles and the Attempts
  made: the Attempt of this call, then those of each of its recursive calls, in the order
  of the calls.\<close>

function sendCmd ::
  "(string \<Rightarrow> string) \<Rightarrow> projector \<Rightarrow> string \<Rightarrow> arg \<Rightarrow> nat option \<Rightarrow> string option
     \<Rightarrow> (nat \<Rightarrow> script) \<Rightarrow> outcome \<times> attempt list" where
  "sendCmd digest p cmd a retry err env =
     (let r = counter_of retry in
      if r > maxRetries then (Rejected err, [])
      else
        (case run_attempt digest p cmd a r err (env r) of
           (st, acts) \<Rightarrow>
             (let kids = map (\<lambda>e. sendCmd digest p cmd a (Some (r + 1)) (Some e) env)
                           (retries acts)
              in (settle (closes (env r)) (maxRetries < r + 1) acts (map fst kids),
                  st # concat (map snd kids)))))"
  by pat_completeness auto
termination
  by (relation "measure (\<lambda>(digest, p, cmd, a, retry, err, env).
        Suc maxRetries - counter_of retry)") (auto simp: counter_of_def)

declare sendCmd.simps [simp del]

text \<open>\<^verbatim>\<open>setInputByDirectNumber(input)\<close> of the convenience layer: its \<^verbatim>\<open>then\<close> and
  \<^verbatim>\<open>catch\<close> callbacks, and the call.\<close>

fun input_settled :: "int \<Rightarrow> outcome \<Rightarrow> outcome" where
  "input_settled input (Fulfilled v) = Fulfilled None"
| "input_settled input (Rejected err) =
     (if err = Some (''Projector returned error: ERR2'' @ [CR]) then
        Rejected (Some (''Input '' @ [DQUOTE] @ int_toString input @ [DQUOTE] @
                        '' does not exist''))
      else Rejected err)"
| "input_settled input Pending = Pending"
| "input_settled input (FirstOf outs) = FirstOf (map (input_settled input) outs)"

definition setInputByDirectNumber ::
  "(string \<Rightarrow> string) \<Rightarrow> projector \<Rightarrow> int \<Rightarrow> (nat \<Rightarrow> script) \<Rightarrow> outcome \<times> attempt list" where
  "setInputByDirectNumber digest p input env =
     (case sendCmd digest p ''INPT'' (Num input) None None env of
        (out, tr) \<Rightarrow> (input_settled input out, tr))"

section \<open>Notions used to state the properties\<close>

text \<open>A chunk that the data handler takes as a greeting.\<close>

definition greeting :: "string \<Rightarrow> bool" where
  "greeting buf = (slice buf 0 9 = ''PJLINK 1 '' \<or> slice buf 0 8 = ''PJLINK 0'')"

text \<open>The chunks of a list of events that the data handler takes as responses (those
  that are not greetings), and the first of them.\<close>

fun responses :: "event list \<Rightarrow> string list" where
  "responses [] = []"
| "responses (SockError e # evs) = responses evs"
| "responses (Data buf # evs) = (if greeting buf then responses evs else buf # responses evs)"

fun first_response :: "event list \<Rightarrow> string option" where
  "first_response [] = None"
| "first_response (SockError e # evs) = first_response evs"
| "first_response (Data buf # evs) = (if greeting buf then first_response evs else Some buf)"

text \<open>A network that behaves in the same way during every Attempt.\<close>

definition every_attempt :: "script \<Rightarrow> nat \<Rightarrow> script" where
  "every_attempt sc r = sc"

text \<open>A script without its socket errors, and an Attempt without its console output.\<close>

fun is_data :: "event \<Rightarrow> bool" where
  "is_data (Data buf) = True"
| "is_data (SockError e) = False"

definition without_errors :: "script \<Rightarrow> script" where
  "without_errors sc =
     sc\<lparr>incoming := filter is_data (incoming sc), late := filter is_data (late sc)\<rparr>"

definition unlogged :: "attempt \<Rightarrow> attempt" where
  "unlogged st = st\<lparr>logged := []\<rparr>"

text \<open>Concrete instances below use the projector of the README and, in place of MD5, a
  digest that only marks its input; every general statement holds for any digest
  function.\<close>

definition panasonic1 :: projector where
  "panasonic1 = new_projector ''172.19.1.137'' ''panasonic'' None"

definition sample_digest :: "string \<Rightarrow> string" where
  "sample_digest s = ''md5('' @ s @ '')''"

section \<open>Slices, handlers and events\<close>

lemma slice_0: "0 \<le> e \<Longrightarrow> slice buf 0 e = take (nat e) buf"
  by (simp add: slice_def clamp_index_def min_def)

lemma slice_nonneg: "0 \<le> s \<Longrightarrow> s \<le> e \<Longrightarrow> slice buf s e = take (nat e - nat s) (drop (nat s) buf)"
  by (auto simp: slice_def clamp_index_def min_def Let_def)

lemma slice_9_minus_1: "slice buf 9 (- 1) = drop 9 (butlast buf)"
proof -
  have e: "clamp_index (length buf) (- 1) = length buf - 1"
    by (simp add: clamp_index_def)
  have s: "clamp_index (length buf) 9 = min 9 (length buf)"
    by (simp add: clamp_index_def)
  have "take (length buf - 1 - min 9 (length buf)) (drop (min 9 (length buf)) buf) =
        drop 9 (take (length buf - 1) buf)"
    by (cases "9 \<le> length buf") (simp_all add: drop_take min_def)
  then show ?thesis
    by (simp add: slice_def e s butlast_conv_take)
qed

lemma slice_from_nonneg: "0 \<le> s \<Longrightarrow> slice_from buf s = drop (nat s) buf"
  by (simp add: slice_from_def clamp_index_def min_def)

lemma length_PROTOCOL_VERSION: "length (PROTOCOL_VERSION cmd) = 2"
  by (simp add: PROTOCOL_VERSION_def)

lemma counter_of_simps: "counter_of None = 0" "counter_of (Some n) = n"
  by (simp_all add: counter_of_def)

lemma on_timer_ending: "ending st \<Longrightarrow> on_timer cmd a c st = (st, None)"
  by (simp add: on_timer_def)

lemma snd_on_data_response:
  "\<not> greeting buf \<Longrightarrow>
   snd (on_data digest p cmd a c st buf) =
     Some (if c then data_then cmd a buf else Rej (Some ''Projector failed to close socket''))"
  by (simp add: on_data_def greeting_def killSocket_def Let_def)

lemma snd_on_data_greeting: "greeting buf \<Longrightarrow> snd (on_data digest p cmd a c st buf) = None"
  by (auto simp: on_data_def greeting_def)

lemma ending_on_data_greeting: "greeting buf \<Longrightarrow> ending (fst (on_data digest p cmd a c st buf)) = ending st"
  by (auto simp: on_data_def greeting_def)

lemma data_then_prefixed:
  assumes "length cmd = 4"
  shows "data_then cmd a (PROTOCOL_VERSION cmd @ cmd @ ''='' @ tail) =
           (if \<not> query a then
              (if take 2 tail = ''OK'' then Res None
               else Retry (''Projector returned error: '' @ tail))
            else Res (Some tail))"
  using assms
  by (simp add: data_then_def slice_0 slice_nonneg slice_from_nonneg length_PROTOCOL_VERSION)

lemma counter_on_data: "counter (fst (on_data digest p cmd a c st buf)) = counter st"
  by (simp add: on_data_def killSocket_def Let_def)

lemma carried_on_data: "carried (fst (on_data digest p cmd a c st buf)) = carried st"
  by (simp add: on_data_def killSocket_def Let_def)

lemma counter_on_timer: "counter (fst (on_timer cmd a c st)) = counter st"
  by (simp add: on_timer_def killSocket_def Let_def)

lemma carried_on_timer: "carried (fst (on_timer cmd a c st)) = carried st"
  by (simp add: on_timer_def killSocket_def Let_def)

lemma counter_deliver: "counter (fst (deliver digest p cmd a c st ev)) = counter st"
  by (cases ev) (simp_all add: counter_on_data on_error_def)

lemma carried_deliver: "carried (fst (deliver digest p cmd a c st ev)) = carried st"
  by (cases ev) (simp_all add: carried_on_data on_error_def)

lemma on_data_auth_greeting:
  "on_data digest p cmd a c st (''PJLINK 1 '' @ seed @ [t]) =
     (st\<lparr>written := written st @
           [digest (seed @ password p) @ PROTOCOL_VERSION cmd @ cmd @ '' '' @ argString a @ [CR]]\<rparr>,
      None)"
  by (simp add: on_data_def slice_0 slice_9_minus_1 butlast_append)

lemma on_data_plain_greeting:
  "on_data digest p cmd a c st (''PJLINK 0'' @ rest) =
     (st\<lparr>written := written st @ [PROTOCOL_VERSION cmd @ cmd @ '' '' @ argString a @ [CR]]\<rparr>,
      None)"
  by (simp add: on_data_def slice_0)

lemma written_on_data:
  "\<exists>ws. written (fst (on_data digest p cmd a c st buf)) = written st @ ws"
  by (simp add: on_data_def killSocket_def Let_def)

lemma written_deliver:
  "\<exists>ws. written (fst (deliver digest p cmd a c st ev)) = written st @ ws"
  by (cases ev) (simp_all add: written_on_data on_error_def)

lemma on_data_logged:
  "on_data digest p cmd a c (st\<lparr>logged := l\<rparr>) buf =
     (case on_data digest p cmd a c st buf of (st', act) \<Rightarrow> (st'\<lparr>logged := l\<rparr>, act))"
  by (simp add: on_data_def killSocket_def Let_def)

lemma on_timer_logged:
  "on_timer cmd a c (st\<lparr>logged := l\<rparr>) =
     (case on_timer cmd a c st of (st', act) \<Rightarrow> (st'\<lparr>logged := l\<rparr>, act))"
  by (simp add: on_timer_def killSocket_def Let_def)

lemma lines_on_data:
  assumes "\<forall>w\<in>set (written st). \<exists>d. w = d @ PROTOCOL_VERSION cmd @ cmd @ '' '' @ argString a @ [CR]"
  shows "\<forall>w\<in>set (written (fst (on_data digest p cmd a c st buf))).
           \<exists>d. w = d @ PROTOCOL_VERSION cmd @ cmd @ '' '' @ argString a @ [CR]"
  using assms by (auto simp: on_data_def killSocket_def Let_def)

lemma ending_on_data_response:
  "\<not> greeting buf \<Longrightarrow> ending (fst (on_data digest p cmd a c st buf))"
  by (simp add: on_data_def greeting_def killSocket_def Let_def)

lemma first_response_responses:
  "first_response evs = (case responses evs of [] \<Rightarrow> None | buf # rest \<Rightarrow> Some buf)"
  by (induction evs rule: responses.induct) simp_all

lemma responses_append: "responses (xs @ ys) = responses xs @ responses ys"
  by (induction xs rule: responses.induct) simp_all

lemma snd_awaiting:
  "snd (awaiting digest p cmd a c st evs) =
     map (\<lambda>buf. if c then data_then cmd a buf else Rej (Some ''Projector failed to close socket''))
       (responses evs)"
proof (induction evs arbitrary: st)
  case Nil
  show ?case by simp
next
  case (Cons ev evs)
  show ?case
  proof (cases ev)
    case (SockError e)
    with Cons show ?thesis by simp
  next
    case (Data b)
    obtain st' act where d: "on_data digest p cmd a c st b = (st', act)"
      by (cases "on_data digest p cmd a c st b")
    show ?thesis
    proof (cases "greeting b")
      case True
      with snd_on_data_greeting [OF True, of digest p cmd a c st] d Cons [of st'] Data
      show ?thesis by simp
    next
      case False
      with snd_on_data_response [OF False, of digest p cmd a c st] d Cons [of st'] Data
      show ?thesis by (auto simp: split_beta)
    qed
  qed
qed

lemma ending_awaiting:
  "ending (fst (awaiting digest p cmd a c st evs)) = (ending st \<or> responses evs \<noteq> [])"
proof (induction evs arbitrary: st)
  case Nil
  show ?case by simp
next
  case (Cons ev evs)
  show ?case
  proof (cases ev)
    case (SockError e)
    with Cons [of "on_error st e"] show ?thesis by (simp add: on_error_def)
  next
    case (Data b)
    obtain st' act where d: "on_data digest p cmd a c st b = (st', act)"
      by (cases "on_data digest p cmd a c st b")
    show ?thesis
    proof (cases "greeting b")
      case True
      with ending_on_data_greeting [OF True, of digest p cmd a c st] d Cons [of st'] Data
      show ?thesis by (cases act) (simp_all add: split_beta)
    next
      case False
      with ending_on_data_response [OF False, of digest p cmd a c st] d Cons [of st'] Data
      show ?thesis by (cases act) (simp_all add: split_beta)
    qed
  qed
qed

lemma counter_awaiting: "counter (fst (awaiting digest p cmd a c st evs)) = counter st"
proof (induction evs arbitrary: st)
  case Nil
  show ?case by simp
next
  case (Cons ev evs)
  obtain st' act where d: "deliver digest p cmd a c st ev = (st', act)"
    by (cases "deliver digest p cmd a c st ev")
  with counter_deliver [of digest p cmd a c st ev] have "counter st' = counter st" by simp
  with d Cons [of st'] show ?case by (cases act) (simp_all add: split_beta)
qed

lemma carried_awaiting: "carried (fst (awaiting digest p cmd a c st evs)) = carried st"
proof (induction evs arbitrary: st)
  case Nil
  show ?case by simp
next
  case (Cons ev evs)
  obtain st' act where d: "deliver digest p cmd a c st ev = (st', act)"
    by (cases "deliver digest p cmd a c st ev")
  with carried_deliver [of digest p cmd a c st ev] have "carried st' = carried st" by simp
  with d Cons [of st'] show ?case by (cases act) (simp_all add: split_beta)
qed

lemma written_awaiting:
  "\<exists>ws. written (fst (awaiting digest p cmd a c st evs)) = written st @ ws"
proof (induction evs arbitrary: st)
  case Nil
  show ?case by simp
next
  case (Cons ev evs)
  obtain st' act where d: "deliver digest p cmd a c st ev = (st', act)"
    by (cases "deliver digest p cmd a c st ev")
  from written_deliver [of digest p cmd a c st ev] d
  obtain ws where ws: "written st' = written st @ ws" by auto
  from Cons [of st'] obtain ws' where
    "written (fst (awaiting digest p cmd a c st' evs)) = written st' @ ws'" by blast
  with d ws show ?case by (cases act) (simp_all add: split_beta)
qed

lemma written_on_timer: "written (fst (on_timer cmd a c st)) = written st"
  by (simp add: on_timer_def killSocket_def Let_def)

lemma lines_awaiting:
  assumes "\<forall>w\<in>set (written st). \<exists>d. w = d @ PROTOCOL_VERSION cmd @ cmd @ '' '' @ argString a @ [CR]"
  shows "\<forall>w\<in>set (written (fst (awaiting digest p cmd a c st evs))).
           \<exists>d. w = d @ PROTOCOL_VERSION cmd @ cmd @ '' '' @ argString a @ [CR]"
  using assms
proof (induction evs arbitrary: st)
  case Nil
  then show ?case by simp
next
  case (Cons ev evs)
  show ?case
  proof (cases ev)
    case (SockError e)
    from Cons.prems have "\<forall>w\<in>set (written (on_error st e)).
           \<exists>d. w = d @ PROTOCOL_VERSION cmd @ cmd @ '' '' @ argString a @ [CR]"
      by (simp add: on_error_def)
    from Cons.IH [OF this] SockError show ?thesis by simp
  next
    case (Data buf)
    obtain st' act where d: "on_data digest p cmd a c st buf = (st', act)"
      by (cases "on_data digest p cmd a c st buf")
    with lines_on_data [OF Cons.prems, of digest p c buf]
    have st': "\<forall>w\<in>set (written st').
           \<exists>d. w = d @ PROTOCOL_VERSION cmd @ cmd @ '' '' @ argString a @ [CR]"
      by simp
    from Cons.IH [OF st'] d Data show ?thesis
      by (cases act) (simp_all add: split_beta)
  qed
qed

lemma awaiting_without_errors:
  "awaiting digest p cmd a c (st\<lparr>logged := l\<rparr>) (filter is_data evs) =
     (case awaiting digest p cmd a c st evs of (st', acts) \<Rightarrow> (st'\<lparr>logged := l\<rparr>, acts))"
proof (induction evs arbitrary: st)
  case Nil
  show ?case by simp
next
  case (Cons ev evs)
  show ?case
  proof (cases ev)
    case (SockError e)
    have "(on_error st e)\<lparr>logged := l\<rparr> = st\<lparr>logged := l\<rparr>"
      by (simp add: on_error_def)
    with Cons [of "on_error st e"] SockError show ?thesis by simp
  next
    case (Data buf)
    obtain st' act where d: "on_data digest p cmd a c st buf = (st', act)"
      by (cases "on_data digest p cmd a c st buf")
    with Cons [of st'] Data show ?thesis
      by (cases act) (simp_all add: on_data_logged split_beta)
  qed
qed

section \<open>One Attempt and one call, unfolded\<close>

lemma snd_on_timer:
  "snd (on_timer cmd a c st) =
     (if ending st then None
      else Some (Retry (if c then ''Failed command to projector''
                        else ''Failed command to projector, failed to close socket, command: %1'' @
                             cmd @ '' '' @ argString a)))"
  by (simp add: on_timer_def killSocket_def Let_def)

lemma ending_on_timer: "ending (fst (on_timer cmd a c st)) = ending st"
  by (simp add: on_timer_def killSocket_def Let_def)

lemma snd_run_attempt:
  "snd (run_attempt digest p cmd a r err sc) =
     map (\<lambda>buf. if closes sc then data_then cmd a buf
                else Rej (Some ''Projector failed to close socket'')) (responses (incoming sc)) @
     (if responses (incoming sc) = [] then
        [Retry (if closes sc then ''Failed command to projector''
                else ''Failed command to projector, failed to close socket, command: %1'' @
                     cmd @ '' '' @ argString a)]
      else []) @
     map (\<lambda>buf. if closes sc then data_then cmd a buf
                else Rej (Some ''Projector failed to close socket'')) (responses (late sc))"
proof -
  let ?c = "closes sc"
  obtain st1 acts1 where a1:
    "awaiting digest p cmd a ?c (new_attempt p r err) (incoming sc) = (st1, acts1)"
    by (cases "awaiting digest p cmd a ?c (new_attempt p r err) (incoming sc)")
  obtain st2 t where tm: "on_timer cmd a ?c st1 = (st2, t)"
    by (cases "on_timer cmd a ?c st1")
  obtain st3 acts3 where a3: "awaiting digest p cmd a ?c st2 (late sc) = (st3, acts3)"
    by (cases "awaiting digest p cmd a ?c st2 (late sc)")
  from snd_awaiting [of digest p cmd a ?c "new_attempt p r err" "incoming sc"] a1
  have acts1: "acts1 = map (\<lambda>buf. if ?c then data_then cmd a buf
                else Rej (Some ''Projector failed to close socket'')) (responses (incoming sc))"
    by simp
  from ending_awaiting [of digest p cmd a ?c "new_attempt p r err" "incoming sc"] a1
  have e1: "ending st1 = (responses (incoming sc) \<noteq> [])"
    by (simp add: new_attempt_def)
  from snd_on_timer [of cmd a ?c st1] tm e1
  have t: "(case t of None \<Rightarrow> [] | Some act \<Rightarrow> [act]) =
     (if responses (incoming sc) = [] then
        [Retry (if ?c then ''Failed command to projector''
                else ''Failed command to projector, failed to close socket, command: %1'' @
                     cmd @ '' '' @ argString a)]
      else [])"
    by (cases "responses (incoming sc) = []") simp_all
  from snd_awaiting [of digest p cmd a ?c st2 "late sc"] a3
  have acts3: "acts3 = map (\<lambda>buf. if ?c then data_then cmd a buf
                else Rej (Some ''Projector failed to close socket'')) (responses (late sc))"
    by simp
  have "snd (run_attempt digest p cmd a r err sc) =
      acts1 @ (case t of None \<Rightarrow> [] | Some act \<Rightarrow> [act]) @ acts3"
    by (simp add: run_attempt_def a1 tm a3)
  then show ?thesis
    unfolding acts1 t acts3 .
qed

lemma counter_run_attempt: "counter (fst (run_attempt digest p cmd a r err sc)) = r"
  by (simp add: run_attempt_def split_beta counter_awaiting counter_on_timer new_attempt_def)

lemma carried_run_attempt: "carried (fst (run_attempt digest p cmd a r err sc)) = err"
  by (simp add: run_attempt_def split_beta carried_awaiting carried_on_timer new_attempt_def)

lemma lines_run_attempt:
  "\<forall>w\<in>set (written (fst (run_attempt digest p cmd a r err sc))).
           \<exists>d. w = d @ PROTOCOL_VERSION cmd @ cmd @ '' '' @ argString a @ [CR]"
proof -
  let ?c = "closes sc"
  let ?st1 = "fst (awaiting digest p cmd a ?c (new_attempt p r err) (incoming sc))"
  let ?st2 = "fst (on_timer cmd a ?c ?st1)"
  have "\<forall>w\<in>set (written ?st1).
           \<exists>d. w = d @ PROTOCOL_VERSION cmd @ cmd @ '' '' @ argString a @ [CR]"
    by (rule lines_awaiting) (simp add: new_attempt_def)
  then have "\<forall>w\<in>set (written ?st2).
           \<exists>d. w = d @ PROTOCOL_VERSION cmd @ cmd @ '' '' @ argString a @ [CR]"
    by (simp add: written_on_timer)
  from lines_awaiting [OF this, of digest p ?c "late sc"] show ?thesis
    by (simp add: run_attempt_def split_beta)
qed

lemma run_attempt_without_errors:
  "run_attempt digest p cmd a r err (without_errors sc) =
     (case run_attempt digest p cmd a r err sc of (st, acts) \<Rightarrow> (unlogged st, acts))"
proof -
  let ?c = "closes sc"
  obtain st1 acts1 where a1:
    "awaiting digest p cmd a ?c (new_attempt p r err) (incoming sc) = (st1, acts1)"
    by (cases "awaiting digest p cmd a ?c (new_attempt p r err) (incoming sc)")
  obtain st2 t where tm: "on_timer cmd a ?c st1 = (st2, t)"
    by (cases "on_timer cmd a ?c st1")
  obtain st3 acts3 where a3: "awaiting digest p cmd a ?c st2 (late sc) = (st3, acts3)"
    by (cases "awaiting digest p cmd a ?c st2 (late sc)")
  have n: "new_attempt p r err = (new_attempt p r err)\<lparr>logged := []\<rparr>"
    by (simp add: new_attempt_def)
  have b1: "awaiting digest p cmd a ?c (new_attempt p r err) (filter is_data (incoming sc)) =
      (st1\<lparr>logged := []\<rparr>, acts1)"
    using awaiting_without_errors [where st = "new_attempt p r err" and l = "[]" and c = ?c
        and evs = "incoming sc" and digest = digest and p = p and cmd = cmd and a = a] a1 n
    by simp
  have b2: "on_timer cmd a ?c (st1\<lparr>logged := []\<rparr>) = (st2\<lparr>logged := []\<rparr>, t)"
    by (simp add: on_timer_logged tm)
  have b3: "awaiting digest p cmd a ?c (st2\<lparr>logged := []\<rparr>) (filter is_data (late sc)) =
      (st3\<lparr>logged := []\<rparr>, acts3)"
    by (simp add: awaiting_without_errors a3)
  show ?thesis
    by (simp add: run_attempt_def without_errors_def unlogged_def a1 tm a3 b1 b2 b3)
qed

lemma sendCmd_exhausted:
  "maxRetries < counter_of retry \<Longrightarrow> sendCmd digest p cmd a retry err env = (Rejected err, [])"
  by (simp add: sendCmd.simps)

lemma sendCmd_attempt:
  "counter_of retry \<le> maxRetries \<Longrightarrow>
   sendCmd digest p cmd a retry err env =
     (settle (closes (env (counter_of retry))) (maxRetries < counter_of retry + 1)
        (snd (run_attempt digest p cmd a (counter_of retry) err (env (counter_of retry))))
        (map (\<lambda>e. fst (sendCmd digest p cmd a (Some (counter_of retry + 1)) (Some e) env))
           (retries (snd (run_attempt digest p cmd a (counter_of retry) err
                            (env (counter_of retry)))))),
      fst (run_attempt digest p cmd a (counter_of retry) err (env (counter_of retry))) #
      concat (map (\<lambda>e. snd (sendCmd digest p cmd a (Some (counter_of retry + 1)) (Some e) env))
                (retries (snd (run_attempt digest p cmd a (counter_of retry) err
                                 (env (counter_of retry)))))))"
  by (subst sendCmd.simps) (simp add: Let_def split_beta comp_def)

lemma sendCmd_None: "sendCmd digest p cmd a None err env = sendCmd digest p cmd a (Some 0) err env"
  by (subst sendCmd.simps, subst (2) sendCmd.simps) (simp add: counter_of_def)

lemma first_of_single: "first_of [out] = out"
  by (simp add: first_of_def)

lemma sendCmd_first_direct:
  assumes le: "counter_of retry \<le> maxRetries"
    and cl: "closes (env (counter_of retry))"
    and resp: "first_response (incoming (env (counter_of retry))) = Some buf"
    and res: "data_then cmd a buf = Res v"
  shows "fst (sendCmd digest p cmd a retry err env) = Fulfilled v"
proof -
  let ?sc = "env (counter_of retry)"
  from resp obtain rest where r: "responses (incoming ?sc) = buf # rest"
    by (auto simp: first_response_responses split: list.splits)
  have "first_direct (snd (run_attempt digest p cmd a (counter_of retry) err ?sc)) =
      Some (Fulfilled v)"
    by (simp add: snd_run_attempt r cl res)
  then show ?thesis
    by (simp add: sendCmd_attempt [OF le] settle_def cl)
qed

lemma sendCmd_close_failure:
  assumes le: "counter_of retry \<le> maxRetries"
    and cl: "\<not> closes (env (counter_of retry))"
    and resp: "first_response (incoming (env (counter_of retry))) = Some buf"
  shows "fst (sendCmd digest p cmd a retry err env) =
           Rejected (Some ''Projector failed to close socket'')"
proof -
  let ?sc = "env (counter_of retry)"
  from resp obtain rest where r: "responses (incoming ?sc) = buf # rest"
    by (auto simp: first_response_responses split: list.splits)
  have "\<exists>acts. snd (run_attempt digest p cmd a (counter_of retry) err ?sc) =
      Rej (Some ''Projector failed to close socket'') # acts"
    by (simp add: snd_run_attempt r cl)
  then obtain acts where
    "snd (run_attempt digest p cmd a (counter_of retry) err ?sc) =
      Rej (Some ''Projector failed to close socket'') # acts" ..
  then show ?thesis
    by (simp add: sendCmd_attempt [OF le] settle_def cl first_of_single)
qed

lemma sendCmd_single_action:
  assumes le: "counter_of retry \<le> maxRetries"
    and one: "snd (run_attempt digest p cmd a (counter_of retry) err (env (counter_of retry))) =
                [act]"
  shows "sendCmd digest p cmd a retry err env =
    (case act of
       Res v \<Rightarrow>
         (Fulfilled v, [fst (run_attempt digest p cmd a (counter_of retry) err (env (counter_of retry)))])
     | Rej e \<Rightarrow>
         (Rejected e, [fst (run_attempt digest p cmd a (counter_of retry) err (env (counter_of retry)))])
     | Retry e \<Rightarrow>
         (case sendCmd digest p cmd a (Some (counter_of retry + 1)) (Some e) env of
            (out, tr) \<Rightarrow>
              (out, fst (run_attempt digest p cmd a (counter_of retry) err (env (counter_of retry))) # tr)))"
  by (cases act)
     (simp_all add: sendCmd_attempt [OF le] one settle_def first_of_single split_beta)

lemma sendCmd_single_response:
  assumes le: "counter_of retry \<le> maxRetries"
    and cl: "closes (env (counter_of retry))"
    and inc: "responses (incoming (env (counter_of retry))) = [buf]"
    and lat: "responses (late (env (counter_of retry))) = []"
  shows "sendCmd digest p cmd a retry err env =
    (case data_then cmd a buf of
       Res v \<Rightarrow>
         (Fulfilled v, [fst (run_attempt digest p cmd a (counter_of retry) err (env (counter_of retry)))])
     | Rej e \<Rightarrow>
         (Rejected e, [fst (run_attempt digest p cmd a (counter_of retry) err (env (counter_of retry)))])
     | Retry e \<Rightarrow>
         (case sendCmd digest p cmd a (Some (counter_of retry + 1)) (Some e) env of
            (out, tr) \<Rightarrow>
              (out, fst (run_attempt digest p cmd a (counter_of retry) err (env (counter_of retry))) # tr)))"
proof -
  have "snd (run_attempt digest p cmd a (counter_of retry) err (env (counter_of retry))) =
      [data_then cmd a buf]"
    by (simp add: snd_run_attempt inc lat cl)
  from sendCmd_single_action [where env = env and retry = retry, OF le this] show ?thesis .
qed

lemma sendCmd_no_response:
  assumes le: "counter_of retry \<le> maxRetries"
    and inc: "responses (incoming (env (counter_of retry))) = []"
    and lat: "responses (late (env (counter_of retry))) = []"
  shows "sendCmd digest p cmd a retry err env =
    (case sendCmd digest p cmd a (Some (counter_of retry + 1))
            (Some (if closes (env (counter_of retry)) then ''Failed command to projector''
                   else ''Failed command to projector, failed to close socket, command: %1'' @
                        cmd @ '' '' @ argString a)) env of
       (out, tr) \<Rightarrow>
         (out, fst (run_attempt digest p cmd a (counter_of retry) err (env (counter_of retry))) # tr))"
proof -
  have "snd (run_attempt digest p cmd a (counter_of retry) err (env (counter_of retry))) =
      [Retry (if closes (env (counter_of retry)) then ''Failed command to projector''
                   else ''Failed command to projector, failed to close socket, command: %1'' @
                        cmd @ '' '' @ argString a)]"
    by (simp add: snd_run_attempt inc lat)
  from sendCmd_single_action [where env = env and retry = retry, OF le this] show ?thesis
    by simp
qed

lemma sendCmd_prefixed_response:
  assumes len: "length cmd = 4"
    and le: "counter_of retry \<le> maxRetries"
    and cl: "closes (env (counter_of retry))"
    and inc: "responses (incoming (env (counter_of retry))) =
                [PROTOCOL_VERSION cmd @ cmd @ ''='' @ tail]"
    and lat: "responses (late (env (counter_of retry))) = []"
  shows "sendCmd digest p cmd a retry err env =
    (if query a then
       (Fulfilled (Some tail),
        [fst (run_attempt digest p cmd a (counter_of retry) err (env (counter_of retry)))])
     else if take 2 tail = ''OK'' then
       (Fulfilled None,
        [fst (run_attempt digest p cmd a (counter_of retry) err (env (counter_of retry)))])
     else
       (case sendCmd digest p cmd a (Some (counter_of retry + 1))
               (Some (''Projector returned error: '' @ tail)) env of
          (out, tr) \<Rightarrow>
            (out, fst (run_attempt digest p cmd a (counter_of retry) err
                         (env (counter_of retry))) # tr)))"
  unfolding sendCmd_single_response [where env = env and retry = retry, OF le cl inc lat]
    data_then_prefixed [OF len]
  by simp

lemma rejected_chain:
  assumes len: "length cmd = 4"
    and all: "\<And>r. r \<le> maxRetries \<Longrightarrow>
                closes (env r) \<and>
                responses (incoming (env r)) = [PROTOCOL_VERSION cmd @ cmd @ ''='' @ tail r] \<and>
                responses (late (env r)) = [] \<and>
                take 2 (tail r) \<noteq> ''OK''"
  shows "r \<le> maxRetries \<Longrightarrow>
    fst (sendCmd digest p cmd (Num n) (Some r) e env) =
      Rejected (Some (''Projector returned error: '' @ tail maxRetries)) \<and>
    map counter (snd (sendCmd digest p cmd (Num n) (Some r) e env)) = [r ..< Suc maxRetries] \<and>
    map carried (snd (sendCmd digest p cmd (Num n) (Some r) e env)) =
      e # map (\<lambda>i. Some (''Projector returned error: '' @ tail i)) [r ..< maxRetries]"
proof (induction "maxRetries - r" arbitrary: r e)
  case 0
  then have r: "r = maxRetries" by simp
  let ?st = "fst (run_attempt digest p cmd (Num n) r e (env r))"
  from all [of r] r
  have step: "sendCmd digest p cmd (Num n) (Some r) e env =
      (case sendCmd digest p cmd (Num n) (Some (r + 1))
               (Some (''Projector returned error: '' @ tail r)) env of
         (out, tr) \<Rightarrow> (out, ?st # tr))"
    using sendCmd_prefixed_response
            [where env = env and retry = "Some r" and a = "Num n" and tail = "tail r", OF len]
    by (simp add: counter_of_def query_def)
  have "sendCmd digest p cmd (Num n) (Some (r + 1))
          (Some (''Projector returned error: '' @ tail r)) env =
        (Rejected (Some (''Projector returned error: '' @ tail r)), [])"
    using r by (simp add: sendCmd_exhausted counter_of_def)
  with step r show ?case
    by (simp add: carried_run_attempt counter_run_attempt)
next
  case (Suc k)
  then have lt: "r < maxRetries" and k: "k = maxRetries - Suc r" and le: "Suc r \<le> maxRetries"
    by simp_all
  let ?st = "fst (run_attempt digest p cmd (Num n) r e (env r))"
  let ?e = "Some (''Projector returned error: '' @ tail r)"
  from all [of r] lt
  have step: "sendCmd digest p cmd (Num n) (Some r) e env =
      (case sendCmd digest p cmd (Num n) (Some (Suc r)) ?e env of
         (out, tr) \<Rightarrow> (out, ?st # tr))"
    using sendCmd_prefixed_response
            [where env = env and retry = "Some r" and a = "Num n" and tail = "tail r", OF len]
    by (simp add: counter_of_def query_def)
  obtain out tr where rc: "sendCmd digest p cmd (Num n) (Some (Suc r)) ?e env = (out, tr)"
    by (cases "sendCmd digest p cmd (Num n) (Some (Suc r)) ?e env")
  from Suc.hyps(1) [OF k le, of ?e] rc
  have ih: "out = Rejected (Some (''Projector returned error: '' @ tail maxRetries))"
    "map counter tr = [Suc r ..< Suc maxRetries]"
    "map carried tr = ?e # map (\<lambda>i. Some (''Projector returned error: '' @ tail i)) [Suc r ..< maxRetries]"
    by (simp_all del: upt_Suc)
  have u: "[r ..< maxRetries] = r # [Suc r ..< maxRetries]"
    using lt by (simp add: upt_conv_Cons)
  have u': "[r ..< Suc maxRetries] = r # [Suc r ..< Suc maxRetries]"
    using lt by (simp add: upt_conv_Cons del: upt_Suc)
  show ?case
    unfolding step rc u u' using ih
    by (simp add: carried_run_attempt counter_run_attempt del: upt_Suc)
qed

section \<open>Every Attempt of a call\<close>

lemma closes_without_errors: "closes (without_errors sc) = closes sc"
  by (simp add: without_errors_def)

lemma sendCmd_without_errors:
  "sendCmd digest p cmd a retry err (\<lambda>r. without_errors (env r)) =
     (case sendCmd digest p cmd a retry err env of (out, tr) \<Rightarrow> (out, map unlogged tr))"
proof (induction digest p cmd a retry err env rule: sendCmd.induct)
  case (1 digest p cmd a retry err env)
  let ?r = "counter_of retry"
  let ?env' = "\<lambda>r. without_errors (env r)"
  show ?case
  proof (cases "maxRetries < ?r")
    case True
    then show ?thesis by (simp add: sendCmd_exhausted)
  next
    case False
    then have le: "?r \<le> maxRetries" by simp
    obtain st acts where ra: "run_attempt digest p cmd a ?r err (env ?r) = (st, acts)"
      by (cases "run_attempt digest p cmd a ?r err (env ?r)")
    then have ra': "run_attempt digest p cmd a ?r err (?env' ?r) = (unlogged st, acts)"
      by (simp add: run_attempt_without_errors)
    have ih: "sendCmd digest p cmd a (Some (Suc ?r)) (Some e) ?env' =
          (case sendCmd digest p cmd a (Some (Suc ?r)) (Some e) env of
             (out, tr) \<Rightarrow> (out, map unlogged tr))" if "e \<in> set (retries acts)" for e
      using "1.IH" [OF refl False ra [symmetric] that] by simp
    have f: "map (\<lambda>e. fst (sendCmd digest p cmd a (Some (Suc ?r)) (Some e) ?env')) (retries acts) =
             map (\<lambda>e. fst (sendCmd digest p cmd a (Some (Suc ?r)) (Some e) env)) (retries acts)"
      by (rule map_cong [OF refl]) (simp add: ih split_beta)
    have s: "map (\<lambda>e. snd (sendCmd digest p cmd a (Some (Suc ?r)) (Some e) ?env')) (retries acts) =
             map (\<lambda>e. map unlogged (snd (sendCmd digest p cmd a (Some (Suc ?r)) (Some e) env)))
               (retries acts)"
      by (rule map_cong [OF refl]) (simp add: ih split_beta)
    show ?thesis
      unfolding sendCmd_attempt [where env = ?env' and retry = retry, OF le]
        sendCmd_attempt [where env = env and retry = retry, OF le]
      by (simp add: ra ra' f s closes_without_errors map_concat comp_def)
  qed
qed

lemma lines_sendCmd:
  "\<forall>st\<in>set (snd (sendCmd digest p cmd a retry err env)). \<forall>w\<in>set (written st).
      \<exists>d. w = d @ PROTOCOL_VERSION cmd @ cmd @ '' '' @ argString a @ [CR]"
proof (induction digest p cmd a retry err env rule: sendCmd.induct)
  case (1 digest p cmd a retry err env)
  let ?r = "counter_of retry"
  show ?case
  proof (cases "maxRetries < ?r")
    case True
    then show ?thesis by (simp add: sendCmd_exhausted)
  next
    case False
    then have le: "?r \<le> maxRetries" by simp
    obtain st acts where ra: "run_attempt digest p cmd a ?r err (env ?r) = (st, acts)"
      by (cases "run_attempt digest p cmd a ?r err (env ?r)")
    with lines_run_attempt [of digest p cmd a ?r err "env ?r"]
    have st: "\<forall>w\<in>set (written st).
           \<exists>d. w = d @ PROTOCOL_VERSION cmd @ cmd @ '' '' @ argString a @ [CR]"
      by simp
    have ih: "\<forall>st\<in>set (snd (sendCmd digest p cmd a (Some (Suc ?r)) (Some e) env)).
          \<forall>w\<in>set (written st).
           \<exists>d. w = d @ PROTOCOL_VERSION cmd @ cmd @ '' '' @ argString a @ [CR]"
      if "e \<in> set (retries acts)" for e
      using "1.IH" [OF refl False ra [symmetric] that] by simp
    show ?thesis
      unfolding sendCmd_attempt [where env = env and retry = retry, OF le]
      using st ih by (auto simp: ra)
  qed
qed



text \<open>Every call settles: the promise of the model is never left pending.\<close>

lemma run_attempt_acts: "snd (run_attempt digest p cmd a r err sc) \<noteq> []"
  by (simp add: snd_run_attempt)

lemma first_direct_settled: "first_direct acts = Some out \<Longrightarrow> out \<noteq> Pending"
  by (induction acts rule: first_direct.induct) auto

lemma first_direct_None: "first_direct acts = None \<Longrightarrow> length (retries acts) = length acts"
  by (induction acts rule: first_direct.induct) auto

lemma first_of_settled:
  assumes "outs \<noteq> []" and "\<forall>out\<in>set outs. out \<noteq> Pending"
  shows "first_of outs \<noteq> Pending"
proof (cases "remdups outs")
  case Nil
  with assms(1) show ?thesis by simp
next
  case (Cons x rest)
  then have "x \<in> set (remdups outs)" by simp
  then have "x \<in> set outs" by simp
  with assms(2) have "x \<noteq> Pending" by blast
  with Cons show ?thesis by (cases rest) (simp_all add: first_of_def)
qed

lemma ahead_settled:
  assumes "acts \<noteq> []" and "length kids = length (retries acts)"
    and "\<forall>out\<in>set kids. out \<noteq> Pending"
  shows "ahead acts kids \<noteq> [] \<and> (\<forall>out\<in>set (ahead acts kids). out \<noteq> Pending)"
  using assms
proof (induction acts kids rule: ahead.induct)
  case (5 e acts k kids)
  then show ?case by (cases acts) auto
qed auto

lemma sendCmd_settles: "fst (sendCmd digest p cmd a retry err env) \<noteq> Pending"
proof (induction digest p cmd a retry err env rule: sendCmd.induct)
  case (1 digest p cmd a retry err env)
  let ?r = "counter_of retry"
  show ?case
  proof (cases "maxRetries < ?r")
    case True
    then show ?thesis by (simp add: sendCmd_exhausted)
  next
    case False
    then have le: "?r \<le> maxRetries" by simp
    obtain st acts where ra: "run_attempt digest p cmd a ?r err (env ?r) = (st, acts)"
      by (cases "run_attempt digest p cmd a ?r err (env ?r)")
    with run_attempt_acts [of digest p cmd a ?r err "env ?r"] have ne: "acts \<noteq> []" by simp
    let ?kids = "map (\<lambda>e. fst (sendCmd digest p cmd a (Some (?r + 1)) (Some e) env)) (retries acts)"
    have kids: "\<forall>out\<in>set ?kids. out \<noteq> Pending"
      using "1.IH" [OF refl False ra [symmetric]] by auto
    have len: "length ?kids = length (retries acts)" by simp
    have "settle (closes (env ?r)) (maxRetries < ?r + 1) acts ?kids \<noteq> Pending"
    proof (cases "closes (env ?r)")
      case False
      from ahead_settled [OF ne len kids] first_of_settled False show ?thesis
        by (simp add: settle_def)
    next
      case True
      show ?thesis
      proof (cases "first_direct acts")
        case (Some out)
        with first_direct_settled [OF Some] True show ?thesis by (simp add: settle_def)
      next
        case None
        from first_direct_None [OF None] ne have k: "?kids \<noteq> []" by auto
        then obtain k ks where ks: "?kids = k # ks" by (cases ?kids) auto
        then have "k \<in> set ?kids" by simp
        with kids have "k \<noteq> Pending" by blast
        with first_of_settled [OF k kids] None True ks show ?thesis
          by (simp add: settle_def)
      qed
    qed
    then show ?thesis
      by (simp add: sendCmd_attempt [OF le] ra)
  qed
qed

text \<open>The definitions that a concrete run unfolds.\<close>

lemmas eval_defs =
  counter_of_def maxRetries_def every_attempt_def run_attempt_def new_attempt_def
  panasonic1_def new_projector_def defaultPort_def on_data_def on_timer_def on_error_def
  slice_0 slice_nonneg slice_from_nonneg data_then_def query_def killSocket_def Let_def
  PROTOCOL_VERSION_def protocolVersion2Commands_def toUpperCase_def upper_char_def
  argString_def int_toString_def nat_toString.simps digit_char_def settle_def first_of_def

section \<open>Retry exhaustion\<close>

text \<open>
  C10. Invoked with a retry counter greater than 5, \<open>sendCmd\<close> rejects with the error
  it was handed and makes no Attempt at all: no socket, no connection, no write, no timer
  (the list of Attempts, which records every one of these calls, is empty).
\<close>

theorem exhausted_rejects_without_effects:
  "maxRetries < r \<Longrightarrow> sendCmd digest p cmd a (Some r) err env = (Rejected err, [])"
  by (simp add: sendCmd_exhausted counter_of_def)

theorem exhausted_rejects_without_effects_witness:
  "maxRetries < 6 \<and>
   sendCmd sample_digest panasonic1 ''POWR'' (Num 1) (Some 6)
     (Some ''Failed command to projector'')
     (every_attempt \<lparr>incoming = [], late = [], closes = True\<rparr>) =
   (Rejected (Some ''Failed command to projector''), [])"
proof -
  have h: "maxRetries < 6" by (simp add: maxRetries_def)
  from h exhausted_rejects_without_effects [OF h] show ?thesis by simp
qed

section \<open>Close failure\<close>

text \<open>
  After the timer, a socket that does not close within 200 ms is destroyed and
  \<open>sendCmd\<close> is called again with counter + 1: six Attempts, each destroying its socket
  once.
\<close>

lemma close_failure_after_timeout_retries:
  "fst (sendCmd sample_digest panasonic1 ''POWR'' (Num 1) None None
          (every_attempt \<lparr>incoming = [], late = [], closes = False\<rparr>)) =
     Rejected (Some ''Failed command to projector, failed to close socket, command: %1POWR 1'') \<and>
   map counter (snd (sendCmd sample_digest panasonic1 ''POWR'' (Num 1) None None
          (every_attempt \<lparr>incoming = [], late = [], closes = False\<rparr>))) = [0, 1, 2, 3, 4, 5] \<and>
   map destroy_calls (snd (sendCmd sample_digest panasonic1 ''POWR'' (Num 1) None None
          (every_attempt \<lparr>incoming = [], late = [], closes = False\<rparr>))) = [1, 1, 1, 1, 1, 1]"
  by (simp add: sendCmd.simps eval_defs)

text \<open>
  C1. After a response, a socket that does not close within 200 ms is destroyed once, but
  the promise is rejected at once with \<open>Projector failed to close socket\<close>: the call
  ends with its first Attempt (counter 0), although the device had answered \<open>OK\<close>.
  The claim, that this close failure starts a new Attempt with counter + 1, does not hold
  in the data handler; it holds in the timer callback only.
\<close>

theorem close_failure_after_response_rejects:
  "sendCmd sample_digest panasonic1 ''POWR'' (Num 1) None None
     (every_attempt \<lparr>incoming = [Data (''PJLINK 0'' @ [CR]), Data (''%1POWR=OK'' @ [CR])],
                     late = [], closes = False\<rparr>) =
   (Rejected (Some ''Projector failed to close socket''),
    [\<lparr>counter = 0, carried = None, ending = True, connects = [(4352, ''172.19.1.137'')],
      written = [''%1POWR 1'' @ [CR]], logged = [], timers = [2000, 200], end_calls = 1,
      destroy_calls = 1\<rparr>])"
  by (simp add: sendCmd.simps [of _ _ _ _ None] eval_defs)

section \<open>Responses to queries\<close>

text \<open>
  C3, as amended. A query whose Attempt takes as first response a chunk that is the 7-byte
  prefix version tag + command + \<open>=\<close> followed by a tail, and whose socket closes within
  the grace window, is fulfilled with the whole tail, its terminator included, whatever
  the socket emits afterwards; when this chunk is the only one that is not a greeting,
  the Attempt is the only one of the call.
\<close>

theorem query_payload_keeps_terminator:
  assumes len: "length cmd = 4"
    and le: "counter_of retry \<le> maxRetries"
    and resp: "first_response (incoming (env (counter_of retry))) =
           Some (PROTOCOL_VERSION cmd @ cmd @ ''='' @ tail)"
    and cl: "closes (env (counter_of retry))"
  shows "fst (sendCmd digest p cmd Query retry err env) = Fulfilled (Some tail) \<and>
    (responses (incoming (env (counter_of retry))) = [PROTOCOL_VERSION cmd @ cmd @ ''='' @ tail] \<and>
     responses (late (env (counter_of retry))) = [] \<longrightarrow>
     sendCmd digest p cmd Query retry err env =
       (Fulfilled (Some tail),
        [fst (run_attempt digest p cmd Query (counter_of retry) err (env (counter_of retry)))]))"
proof -
  have dt: "data_then cmd Query (PROTOCOL_VERSION cmd @ cmd @ ''='' @ tail) = Res (Some tail)"
    unfolding data_then_prefixed [OF len] by (simp add: query_def)
  from sendCmd_first_direct [where env = env and retry = retry, OF le cl resp dt]
  have a: "fst (sendCmd digest p cmd Query retry err env) = Fulfilled (Some tail)" .
  have b: "sendCmd digest p cmd Query retry err env =
       (Fulfilled (Some tail),
        [fst (run_attempt digest p cmd Query (counter_of retry) err (env (counter_of retry)))])"
    if inc: "responses (incoming (env (counter_of retry))) =
               [PROTOCOL_VERSION cmd @ cmd @ ''='' @ tail]"
      and lat: "responses (late (env (counter_of retry))) = []"
    using sendCmd_prefixed_response
            [where env = env and retry = retry and a = Query, OF len le cl inc lat]
    by (simp add: query_def)
  from a b show ?thesis by blast
qed

theorem query_payload_keeps_terminator_witness:
  "length ''LAMP'' = 4 \<and> counter_of None \<le> maxRetries \<and>
   first_response [Data (''PJLINK 0'' @ [CR]), Data (''%1LAMP=1234 1'' @ [CR])] =
     Some (PROTOCOL_VERSION ''LAMP'' @ ''LAMP'' @ ''='' @ ''1234 1'' @ [CR]) \<and>
   responses [Data (''PJLINK 0'' @ [CR]), Data (''%1LAMP=1234 1'' @ [CR])] =
     [PROTOCOL_VERSION ''LAMP'' @ ''LAMP'' @ ''='' @ ''1234 1'' @ [CR]] \<and>
   fst (sendCmd sample_digest panasonic1 ''LAMP'' Query None None
     (every_attempt \<lparr>incoming = [Data (''PJLINK 0'' @ [CR]), Data (''%1LAMP=1234 1'' @ [CR])],
           late = [], closes = True\<rparr>)) = Fulfilled (Some (''1234 1'' @ [CR])) \<and>
   map counter (snd (sendCmd sample_digest panasonic1 ''LAMP'' Query None None
     (every_attempt \<lparr>incoming = [Data (''PJLINK 0'' @ [CR]), Data (''%1LAMP=1234 1'' @ [CR])],
           late = [], closes = True\<rparr>))) = [0]"
proof -
  let ?env = "every_attempt
    \<lparr>incoming = [Data (''PJLINK 0'' @ [CR]), Data (''%1LAMP=1234 1'' @ [CR])], late = [],
     closes = True\<rparr>"
  have h1: "length ''LAMP'' = 4" by simp
  have h2: "counter_of None \<le> maxRetries" by (simp add: counter_of_def)
  have h3: "first_response [Data (''PJLINK 0'' @ [CR]), Data (''%1LAMP=1234 1'' @ [CR])] =
     Some (PROTOCOL_VERSION ''LAMP'' @ ''LAMP'' @ ''='' @ ''1234 1'' @ [CR])"
    by (simp add: greeting_def slice_0 PROTOCOL_VERSION_def
        protocolVersion2Commands_def toUpperCase_def upper_char_def)
  have h4: "closes (?env (counter_of None))" by (simp add: every_attempt_def)
  have h5: "responses [Data (''PJLINK 0'' @ [CR]), Data (''%1LAMP=1234 1'' @ [CR])] =
     [PROTOCOL_VERSION ''LAMP'' @ ''LAMP'' @ ''='' @ ''1234 1'' @ [CR]]"
    by (simp add: greeting_def slice_0 PROTOCOL_VERSION_def
        protocolVersion2Commands_def toUpperCase_def upper_char_def)
  have i3: "first_response (incoming (?env (counter_of None))) =
     Some (PROTOCOL_VERSION ''LAMP'' @ ''LAMP'' @ ''='' @ ''1234 1'' @ [CR])"
    unfolding every_attempt_def using h3 by simp
  have i5: "responses (incoming (?env (counter_of None))) =
     [PROTOCOL_VERSION ''LAMP'' @ ''LAMP'' @ ''='' @ ''1234 1'' @ [CR]]"
    unfolding every_attempt_def using h5 by simp
  have i6: "responses (late (?env (counter_of None))) = []" by (simp add: every_attempt_def)
  from query_payload_keeps_terminator
         [where env = ?env and retry = None and digest = sample_digest and p = panasonic1
            and err = None, OF h1 h2 i3 h4] i5 i6
  have r: "sendCmd sample_digest panasonic1 ''LAMP'' Query None None ?env =
       (Fulfilled (Some (''1234 1'' @ [CR])),
        [fst (run_attempt sample_digest panasonic1 ''LAMP'' Query (counter_of None) None
               (?env (counter_of None)))])"
    by blast
  have f: "fst (sendCmd sample_digest panasonic1 ''LAMP'' Query None None ?env) =
      Fulfilled (Some (''1234 1'' @ [CR]))"
    unfolding r by simp
  have c: "map counter (snd (sendCmd sample_digest panasonic1 ''LAMP'' Query None None ?env)) = [0]"
    unfolding r by (simp add: counter_run_attempt counter_of_def)
  show ?thesis
    by (intro conjI) (rule h1 h2 h3 h5 f c)+
qed

text \<open>
  C3, as stated (the payload is the tail with the terminator stripped), fails on the
  response \<open>%1LAMP=1234 1\<close> + CR: the payload is \<open>1234 1\<close> + CR.
\<close>

theorem query_payload_stripped_counterexample:
  "fst (sendCmd sample_digest panasonic1 ''LAMP'' Query None None
     (every_attempt \<lparr>incoming = [Data (''PJLINK 0'' @ [CR]), Data (''%1LAMP=1234 1'' @ [CR])],
                     late = [], closes = True\<rparr>)) = Fulfilled (Some (''1234 1'' @ [CR])) \<and>
   fst (sendCmd sample_digest panasonic1 ''LAMP'' Query None None
     (every_attempt \<lparr>incoming = [Data (''PJLINK 0'' @ [CR]), Data (''%1LAMP=1234 1'' @ [CR])],
                     late = [], closes = True\<rparr>)) \<noteq> Fulfilled (Some ''1234 1'')"
  by (simp add: sendCmd.simps [of _ _ _ _ None] eval_defs CR_def)

section \<open>Responses to set commands\<close>




section \<open>The retry counter\<close>





section \<open>Request lines\<close>

lemma written_run_attempt_first:
  assumes od: "on_data digest p cmd a (closes sc) (new_attempt p r err) G =
                 ((new_attempt p r err)\<lparr>written := [line]\<rparr>, None)"
    and inc: "incoming sc = Data G # evs"
  shows "take 1 (written (fst (run_attempt digest p cmd a r err sc))) = [line]"
proof -
  let ?c = "closes sc"
  let ?st = "(new_attempt p r err)\<lparr>written := [line]\<rparr>"
  let ?st1 = "fst (awaiting digest p cmd a ?c ?st evs)"
  let ?st2 = "fst (on_timer cmd a ?c ?st1)"
  from written_awaiting [of digest p cmd a ?c ?st evs]
  obtain ws where w1: "written ?st1 = line # ws" by auto
  then have w2: "written ?st2 = line # ws" by (simp add: written_on_timer)
  from written_awaiting [of digest p cmd a ?c ?st2 "late sc"] w2
  obtain ws' where w3: "written (fst (awaiting digest p cmd a ?c ?st2 (late sc))) = line # ws'"
    by auto
  have "fst (run_attempt digest p cmd a r err sc) = fst (awaiting digest p cmd a ?c ?st2 (late sc))"
    by (simp add: run_attempt_def inc od split_beta)
  with w3 show ?thesis by simp
qed

text \<open>
  C5. On a greeting made of the 9-byte prefix \<open>PJLINK 1 \<close>, a seed and the terminator,
  the data handler writes exactly one line, the digest of seed + password followed by the
  version tag, the command, a space, the argument and CR, and starts nothing else; this
  line is the first one the Attempt writes when the greeting is the first chunk it
  receives. The seed is whatever lies between the prefix and the last byte, so in
  particular the 8 characters of a well-formed greeting.
\<close>

theorem authenticated_request_line:
  "on_data digest p cmd a c st (''PJLINK 1 '' @ seed @ [CR]) =
     (st\<lparr>written := written st @
           [digest (seed @ password p) @ PROTOCOL_VERSION cmd @ cmd @ '' '' @ argString a @ [CR]]\<rparr>,
      None) \<and>
   take 1 (written (fst (run_attempt digest p cmd a r err
       \<lparr>incoming = Data (''PJLINK 1 '' @ seed @ [CR]) # evs, late = evs', closes = c\<rparr>))) =
     [digest (seed @ password p) @ PROTOCOL_VERSION cmd @ cmd @ '' '' @ argString a @ [CR]]"
proof -
  define line where
    "line = digest (seed @ password p) @ PROTOCOL_VERSION cmd @ cmd @ '' '' @ argString a @ [CR]"
  define G where "G = ''PJLINK 1 '' @ seed @ [CR]"
  have od: "on_data digest p cmd a c s G = (s\<lparr>written := written s @ [line]\<rparr>, None)" for s
    unfolding G_def line_def by (rule on_data_auth_greeting)
  let ?sc = "\<lparr>incoming = Data G # evs, late = evs', closes = c\<rparr>"
  have "on_data digest p cmd a (closes ?sc) (new_attempt p r err) G =
      ((new_attempt p r err)\<lparr>written := [line]\<rparr>, None)"
    by (simp add: od new_attempt_def)
  from written_run_attempt_first [OF this, of evs]
  have "take 1 (written (fst (run_attempt digest p cmd a r err ?sc))) = [line]"
    by simp
  with od [of st] show ?thesis
    unfolding G_def line_def by blast
qed

theorem authenticated_request_line_witness:
  "written (fst (on_data sample_digest panasonic1 ''POWR'' (Num 1) True
      (new_attempt panasonic1 0 None) (''PJLINK 1 12345678'' @ [CR]))) =
     [sample_digest ''12345678panasonic'' @ ''%1POWR 1'' @ [CR]]"
  using authenticated_request_line [of sample_digest panasonic1 "''POWR''" "Num 1" True
      "new_attempt panasonic1 0 None" "''12345678''" 0 None "[]"]
  by (simp add: new_attempt_def panasonic1_def new_projector_def PROTOCOL_VERSION_def
      protocolVersion2Commands_def toUpperCase_def upper_char_def argString_def int_toString_def
      nat_toString.simps digit_char_def)

text \<open>
  C8. Whenever the upper-case form of the command is one of \<open>SVOL\<close>, \<open>IRES\<close>,
  \<open>FREZ\<close>, the version tag is \<open>%2\<close>, and both request lines carry this tag
  followed by the command as it was given (for \<open>svol\<close>: \<open>%2svol 1\<close>).
\<close>

theorem version2_case_insensitive:
  assumes "toUpperCase cmd \<in> set protocolVersion2Commands"
  shows "PROTOCOL_VERSION cmd = ''%2'' \<and>
    on_data digest p cmd a c st (''PJLINK 0'' @ rest) =
      (st\<lparr>written := written st @ [''%2'' @ cmd @ '' '' @ argString a @ [CR]]\<rparr>, None) \<and>
    on_data digest p cmd a c st (''PJLINK 1 '' @ seed @ [CR]) =
      (st\<lparr>written := written st @
            [digest (seed @ password p) @ ''%2'' @ cmd @ '' '' @ argString a @ [CR]]\<rparr>, None)"
proof -
  from assms have pv: "PROTOCOL_VERSION cmd = ''%2''" by (simp add: PROTOCOL_VERSION_def)
  show ?thesis
    unfolding on_data_plain_greeting on_data_auth_greeting pv by simp
qed

theorem version2_case_insensitive_witness:
  "toUpperCase ''svol'' \<in> set protocolVersion2Commands \<and>
   PROTOCOL_VERSION ''svol'' = ''%2'' \<and>
   written (fst (on_data sample_digest panasonic1 ''svol'' (Num 1) True
      (new_attempt panasonic1 0 None) (''PJLINK 0'' @ [CR]))) = [''%2svol 1'' @ [CR]]"
proof -
  have h: "toUpperCase ''svol'' \<in> set protocolVersion2Commands"
    by (simp add: protocolVersion2Commands_def toUpperCase_def upper_char_def)
  from version2_case_insensitive [OF h, of sample_digest panasonic1 "Num 1" True
      "new_attempt panasonic1 0 None" "[CR]" "[]"] h
  show ?thesis
    by (simp add: new_attempt_def argString_def int_toString_def nat_toString.simps digit_char_def)
qed

section \<open>Socket errors\<close>

text \<open>
  C7. In every state of an Attempt, a socket error adds one line to the console and
  changes nothing else: the counter, the flag, the socket and the timers stay as they
  are, and the event neither settles the promise nor calls \<open>sendCmd\<close> again. So the
  socket errors of a network have no part in the result: without them the call settles
  in the same way, through the same Attempts, which differ in their console output only.
\<close>

theorem socket_error_only_logged:
  "deliver digest p cmd a c st (SockError e) =
     (st\<lparr>logged := logged st @ [''Projector socket error: '' @ e]\<rparr>, None) \<and>
   sendCmd digest p cmd a retry err (\<lambda>r. without_errors (env r)) =
     (fst (sendCmd digest p cmd a retry err env),
      map unlogged (snd (sendCmd digest p cmd a retry err env)))"
  by (simp add: on_error_def sendCmd_without_errors split_beta)

theorem socket_error_only_logged_witness:
  "deliver sample_digest panasonic1 ''POWR'' (Num 1) True (new_attempt panasonic1 0 None)
     (SockError ''{}'') =
     ((new_attempt panasonic1 0 None)\<lparr>logged := [''Projector socket error: {}'']\<rparr>, None) \<and>
   fst (sendCmd sample_digest panasonic1 ''POWR'' (Num 1) None None
     (every_attempt \<lparr>incoming = [Data (''PJLINK 0'' @ [CR]), Data (''%1POWR=OK'' @ [CR])],
                     late = [], closes = True\<rparr>)) =
   fst (sendCmd sample_digest panasonic1 ''POWR'' (Num 1) None None
     (every_attempt \<lparr>incoming = [SockError ''{}'', Data (''PJLINK 0'' @ [CR]), SockError ''{}'',
                                 Data (''%1POWR=OK'' @ [CR])],
                     late = [], closes = True\<rparr>))"
proof -
  let ?env = "every_attempt \<lparr>incoming = [SockError ''{}'', Data (''PJLINK 0'' @ [CR]),
                                         SockError ''{}'', Data (''%1POWR=OK'' @ [CR])],
                             late = [], closes = True\<rparr>"
  have e: "(\<lambda>r. without_errors (?env r)) =
    every_attempt \<lparr>incoming = [Data (''PJLINK 0'' @ [CR]), Data (''%1POWR=OK'' @ [CR])],
                   late = [], closes = True\<rparr>"
    by (rule ext) (simp add: without_errors_def every_attempt_def)
  from socket_error_only_logged [of sample_digest panasonic1 "''POWR''" "Num 1" True
      "new_attempt panasonic1 0 None" "''{}''" None None ?env]
  show ?thesis
    unfolding e by (simp add: new_attempt_def)
qed

section \<open>The version tag\<close>

text \<open>
  C6, as amended. The version tag is \<open>%2\<close> exactly when the upper-case form of the
  command is one of \<open>SVOL\<close>, \<open>IRES\<close>, \<open>FREZ\<close>, and \<open>%1\<close> otherwise; and every
  line written by any Attempt of a call ends with this one tag, the command, a space, the
  argument and CR (the digest, when there is one, comes before).
\<close>

theorem version_tag_by_uppercase_membership:
  "(PROTOCOL_VERSION cmd = ''%2'' \<longleftrightarrow> toUpperCase cmd \<in> {''SVOL'', ''IRES'', ''FREZ''}) \<and>
   (PROTOCOL_VERSION cmd = ''%1'' \<longleftrightarrow> toUpperCase cmd \<notin> {''SVOL'', ''IRES'', ''FREZ''}) \<and>
   (\<forall>st\<in>set (snd (sendCmd digest p cmd a retry err env)). \<forall>w\<in>set (written st).
      \<exists>d. w = d @ PROTOCOL_VERSION cmd @ cmd @ '' '' @ argString a @ [CR])"
proof -
  have "PROTOCOL_VERSION cmd = ''%2'' \<longleftrightarrow> toUpperCase cmd \<in> {''SVOL'', ''IRES'', ''FREZ''}"
    by (simp add: PROTOCOL_VERSION_def protocolVersion2Commands_def)
  moreover
  have "PROTOCOL_VERSION cmd = ''%1'' \<longleftrightarrow> toUpperCase cmd \<notin> {''SVOL'', ''IRES'', ''FREZ''}"
    by (simp add: PROTOCOL_VERSION_def protocolVersion2Commands_def)
  ultimately show ?thesis
    using lines_sendCmd [of digest p cmd a retry err env] by blast
qed

theorem version_tag_by_uppercase_membership_witness:
  "toUpperCase ''FREZ'' \<in> {''SVOL'', ''IRES'', ''FREZ''} \<and>
   PROTOCOL_VERSION ''FREZ'' = ''%2'' \<and>
   map written (snd (sendCmd sample_digest panasonic1 ''FREZ'' (Num 1) None None
     (every_attempt \<lparr>incoming = [Data (''PJLINK 0'' @ [CR]), Data (''%2FREZ=ERR3'' @ [CR])],
                     late = [], closes = True\<rparr>))) =
     [[''%2FREZ 1'' @ [CR]], [''%2FREZ 1'' @ [CR]], [''%2FREZ 1'' @ [CR]],
      [''%2FREZ 1'' @ [CR]], [''%2FREZ 1'' @ [CR]], [''%2FREZ 1'' @ [CR]]] \<and>
   (\<exists>d. ''%2FREZ 1'' @ [CR] =
          d @ PROTOCOL_VERSION ''FREZ'' @ ''FREZ'' @ '' '' @ argString (Num 1) @ [CR])"
proof -
  let ?env = "every_attempt
    \<lparr>incoming = [Data (''PJLINK 0'' @ [CR]), Data (''%2FREZ=ERR3'' @ [CR])], late = [], closes = True\<rparr>"
  let ?tr = "snd (sendCmd sample_digest panasonic1 ''FREZ'' (Num 1) None None ?env)"
  have tr: "map written ?tr =
     [[''%2FREZ 1'' @ [CR]], [''%2FREZ 1'' @ [CR]], [''%2FREZ 1'' @ [CR]],
      [''%2FREZ 1'' @ [CR]], [''%2FREZ 1'' @ [CR]], [''%2FREZ 1'' @ [CR]]]"
    by (simp add: sendCmd.simps eval_defs CR_def)
  then obtain st where st: "st \<in> set ?tr" "written st = [''%2FREZ 1'' @ [CR]]"
    by (cases ?tr) auto
  note t = version_tag_by_uppercase_membership
             [of "''FREZ''" sample_digest panasonic1 "Num 1" None None ?env]
  from t st have "\<exists>d. ''%2FREZ 1'' @ [CR] =
          d @ PROTOCOL_VERSION ''FREZ'' @ ''FREZ'' @ '' '' @ argString (Num 1) @ [CR]"
    by (metis list.set_intros(1))
  moreover have "toUpperCase ''FREZ'' \<in> {''SVOL'', ''IRES'', ''FREZ''}"
    by (simp add: toUpperCase_def upper_char_def)
  ultimately show ?thesis
    using t tr by blast
qed

text \<open>
  C6, as stated (\<open>%2\<close> exactly when the command itself is in the set), fails on
  \<open>svol\<close>: it is not in the set and its tag is \<open>%2\<close>.
\<close>

theorem version_tag_membership_counterexample:
  "PROTOCOL_VERSION ''svol'' = ''%2'' \<and> ''svol'' \<notin> {''SVOL'', ''IRES'', ''FREZ''}"
  by (simp add: PROTOCOL_VERSION_def protocolVersion2Commands_def toUpperCase_def upper_char_def)

section \<open>The error of a rejected set command\<close>

text \<open>
  C9. For a set command, a response made of the 7-byte prefix and a tail that does not
  begin with \<open>OK\<close> hands on the error \<open>Projector returned error: \<close> followed by the
  whole tail, terminator included. \<open>setInputByDirectNumber\<close> turns a rejection into
  \<open>Input "n" does not exist\<close> exactly when the error is
  \<open>Projector returned error: ERR2\<close> + CR, and passes every other error on unchanged
  (the same text without the CR among them).
\<close>

theorem rejected_error_keeps_terminator:
  "(length cmd = 4 \<and> take 2 tail \<noteq> ''OK'' \<longrightarrow>
      data_then cmd (Num n) (PROTOCOL_VERSION cmd @ cmd @ ''='' @ tail) =
        Retry (''Projector returned error: '' @ tail)) \<and>
   (fst (sendCmd digest p ''INPT'' (Num i) None None env) =
      Rejected (Some (''Projector returned error: ERR2'' @ [CR])) \<longrightarrow>
    fst (setInputByDirectNumber digest p i env) =
      Rejected (Some (''Input '' @ [DQUOTE] @ int_toString i @ [DQUOTE] @ '' does not exist''))) \<and>
   (fst (sendCmd digest p ''INPT'' (Num i) None None env) = Rejected e \<and>
    e \<noteq> Some (''Projector returned error: ERR2'' @ [CR]) \<longrightarrow>
    fst (setInputByDirectNumber digest p i env) = Rejected e)"
proof -
  have a: "data_then cmd (Num n) (PROTOCOL_VERSION cmd @ cmd @ ''='' @ tail) =
        Retry (''Projector returned error: '' @ tail)"
    if "length cmd = 4" "take 2 tail \<noteq> ''OK''"
    using that by (simp only: data_then_prefixed query_def arg.case if_True if_False not_False_eq_True)
  obtain out tr where rc: "sendCmd digest p ''INPT'' (Num i) None None env = (out, tr)"
    by (cases "sendCmd digest p ''INPT'' (Num i) None None env")
  have b: "fst (setInputByDirectNumber digest p i env) =
      Rejected (Some (''Input '' @ [DQUOTE] @ int_toString i @ [DQUOTE] @ '' does not exist''))"
    if "out = Rejected (Some (''Projector returned error: ERR2'' @ [CR]))"
    using that rc by (simp add: setInputByDirectNumber_def)
  have c: "fst (setInputByDirectNumber digest p i env) = Rejected e"
    if "out = Rejected e" "e \<noteq> Some (''Projector returned error: ERR2'' @ [CR])"
    using that rc by (simp add: setInputByDirectNumber_def)
  from a b c rc show ?thesis by simp
qed

lemma chain_INPT:
  assumes "take 2 t \<noteq> ''OK''"
  shows "fst (sendCmd sample_digest panasonic1 ''INPT'' (Num 7) None None
     (every_attempt \<lparr>incoming = [Data (''PJLINK 0'' @ [CR]), Data (''%1INPT='' @ t)],
                     late = [], closes = True\<rparr>)) = Rejected (Some (''Projector returned error: '' @ t))"
proof -
  let ?env = "every_attempt
    \<lparr>incoming = [Data (''PJLINK 0'' @ [CR]), Data (''%1INPT='' @ t)], late = [], closes = True\<rparr>"
  have "\<And>r. r \<le> maxRetries \<Longrightarrow>
                closes (?env r) \<and>
                responses (incoming (?env r)) =
                  [PROTOCOL_VERSION ''INPT'' @ ''INPT'' @ ''='' @ t] \<and>
                responses (late (?env r)) = [] \<and>
                take 2 t \<noteq> ''OK''"
    using assms
    by (simp add: every_attempt_def greeting_def slice_0 PROTOCOL_VERSION_def
        protocolVersion2Commands_def toUpperCase_def upper_char_def)
  from rejected_chain [where env = ?env and tail = "\<lambda>r. t" and r = 0 and cmd = "''INPT''"
        and e = None and digest = sample_digest and p = panasonic1 and n = 7, OF _ this]
  show ?thesis by (simp add: sendCmd_None)
qed

theorem rejected_error_keeps_terminator_witness:
  "length ''INPT'' = 4 \<and> take 2 (''ERR2'' @ [CR]) \<noteq> ''OK'' \<and>
   data_then ''INPT'' (Num 7) (''%1INPT=ERR2'' @ [CR]) =
     Retry (''Projector returned error: ERR2'' @ [CR]) \<and>
   fst (sendCmd sample_digest panasonic1 ''INPT'' (Num 7) None None
     (every_attempt \<lparr>incoming = [Data (''PJLINK 0'' @ [CR]), Data (''%1INPT=ERR2'' @ [CR])],
                     late = [], closes = True\<rparr>)) =
     Rejected (Some (''Projector returned error: ERR2'' @ [CR])) \<and>
   fst (setInputByDirectNumber sample_digest panasonic1 7
     (every_attempt \<lparr>incoming = [Data (''PJLINK 0'' @ [CR]), Data (''%1INPT=ERR2'' @ [CR])],
                     late = [], closes = True\<rparr>)) =
     Rejected (Some (''Input '' @ [DQUOTE] @ ''7'' @ [DQUOTE] @ '' does not exist'')) \<and>
   fst (sendCmd sample_digest panasonic1 ''INPT'' (Num 7) None None
     (every_attempt \<lparr>incoming = [Data (''PJLINK 0'' @ [CR]), Data ''%1INPT=ERR2''],
                     late = [], closes = True\<rparr>)) =
     Rejected (Some ''Projector returned error: ERR2'') \<and>
   Some ''Projector returned error: ERR2'' \<noteq> Some (''Projector returned error: ERR2'' @ [CR]) \<and>
   fst (setInputByDirectNumber sample_digest panasonic1 7
     (every_attempt \<lparr>incoming = [Data (''PJLINK 0'' @ [CR]), Data ''%1INPT=ERR2''],
                     late = [], closes = True\<rparr>)) =
     Rejected (Some ''Projector returned error: ERR2'')"
proof -
  let ?env1 = "every_attempt
    \<lparr>incoming = [Data (''PJLINK 0'' @ [CR]), Data (''%1INPT=ERR2'' @ [CR])], late = [], closes = True\<rparr>"
  let ?env2 = "every_attempt
    \<lparr>incoming = [Data (''PJLINK 0'' @ [CR]), Data ''%1INPT=ERR2''], late = [], closes = True\<rparr>"
  have pv: "PROTOCOL_VERSION ''INPT'' = ''%1''"
    by (simp add: PROTOCOL_VERSION_def protocolVersion2Commands_def toUpperCase_def upper_char_def)
  have s1: "fst (sendCmd sample_digest panasonic1 ''INPT'' (Num 7) None None ?env1) =
     Rejected (Some (''Projector returned error: ERR2'' @ [CR]))"
    using chain_INPT [of "''ERR2'' @ [CR]"] by simp
  have s2: "fst (sendCmd sample_digest panasonic1 ''INPT'' (Num 7) None None ?env2) =
     Rejected (Some ''Projector returned error: ERR2'')"
    using chain_INPT [of "''ERR2''"] by simp
  have ne: "Some ''Projector returned error: ERR2'' \<noteq> Some (''Projector returned error: ERR2'' @ [CR])"
    by simp
  have n7: "int_toString 7 = ''7''"
    by (simp add: int_toString_def nat_toString.simps digit_char_def)
  note t1 = rejected_error_keeps_terminator
      [of "''INPT''" "''ERR2'' @ [CR]" 7 sample_digest panasonic1 7 ?env1 None]
  note t2 = rejected_error_keeps_terminator
      [of "''INPT''" "''ERR2'' @ [CR]" 7 sample_digest panasonic1 7 ?env2
          "Some ''Projector returned error: ERR2''"]
  from t1 s1 pv n7 have
    d: "data_then ''INPT'' (Num 7) (''%1INPT=ERR2'' @ [CR]) =
          Retry (''Projector returned error: ERR2'' @ [CR])"
    and i1: "fst (setInputByDirectNumber sample_digest panasonic1 7 ?env1) =
     Rejected (Some (''Input '' @ [DQUOTE] @ ''7'' @ [DQUOTE] @ '' does not exist''))"
    by simp_all
  from t2 s2 ne have
    i2: "fst (setInputByDirectNumber sample_digest panasonic1 7 ?env2) =
     Rejected (Some ''Projector returned error: ERR2'')"
    by simp
  from d s1 i1 s2 ne i2 show ?thesis by simp
qed

end
